theory Spec2Isabelle
  imports Main "HOL-Library.AList" "HOL-Library.Sublist"
begin

section \<open>Failure kinds\<close>

text \<open>
  The source signals failure with \<^verbatim>\<open>console.assert\<close> and \<^verbatim>\<open>throw\<close>. Every such
  signal is a value here. \<open>TypeError\<close> is what JavaScript raises when a method is called
  on a reference that holds no object.
\<close>

datatype error =
    InvalidAxiom
  | MissingIdentity
  | UnknownAxiom
  | DuplicateRegistration
  | UnresolvedReference
  | DivergentRelation
  | TypeError

section \<open>Objects and references\<close>

text \<open>
  An object is referred to by an address. The prototype link of a context and of a class
  is fixed when the object is created (\<^verbatim>\<open>Object.create(parent)\<close>,
  \<^verbatim>\<open>sub.__proto__ = this\<close> followed by \<^verbatim>\<open>Object.freeze\<close>), so an address is the
  list of unique ids from the object itself up to the root of its prototype chain: the
  tail of an address is the address of the prototype, and \<open>[]\<close> is the root.
\<close>

type_synonym addr = "nat list"





section \<open>Context registry (Context.js)\<close>
















subsection \<open>Example classes and states of the registry\<close>




section \<open>Slot binding (Slot.js)\<close>

text \<open>
  Two property Slots, \<^verbatim>\<open>this\<close> and \<^verbatim>\<open>other\<close>, are bound by one call of \<^verbatim>\<open>relateTo\<close> or
  \<^verbatim>\<open>linkFrom\<close>; the listeners of that call are the only subscribers of the two
  properties. \<^verbatim>\<open>PropertySlot.get\<close> reads the property and \<^verbatim>\<open>PropertySlot.sub\<close>
  subscribes to its \<^verbatim>\<open>propertyChange\<close> topic.

  Modelled from the spec: the property setter behind \<^verbatim>\<open>PropertySlot.set\<close> (Property.js
  and FObject.js are not among the sources). The setter stores the value it accepts: a
  function of the old and the requested value, which for a plain property returns the
  requested value, and which rejects by returning the old one. It then publishes the
  change to the subscribers, synchronously, when the stored value differs from the old
  value, and publishes nothing when the value stays the same.
\<close>

definition accept :: "'v \<Rightarrow> 'v \<Rightarrow> 'v" where
  "accept old requested = requested"

subsection \<open>relateTo\<close>

text \<open>
  The arguments of \<^verbatim>\<open>this.relateTo(other, f, fPrime, expectUnstable)\<close> and the setters of
  the two properties.
\<close>

record ('a, 'b) relation =
  map_f :: "'a \<Rightarrow> 'b"
  map_fPrime :: "'b \<Rightarrow> 'a"
  expectUnstable :: bool
  adapt_self :: "'a \<Rightarrow> 'a \<Rightarrow> 'a"
  adapt_other :: "'b \<Rightarrow> 'b \<Rightarrow> 'b"

text \<open>
  The values of the two slots and the variables \<^verbatim>\<open>feedback\<close> and \<^verbatim>\<open>feedbackCounter\<close>
  of the closure.
\<close>

record ('a, 'b) relate_state =
  self_value :: 'a
  other_value :: 'b
  feedback :: bool
  feedbackCounter :: int

text \<open>
  The listeners \<open>l1\<close> (subscribed to \<^verbatim>\<open>this\<close>) and \<open>l2\<close> (subscribed to \<^verbatim>\<open>other\<close>), and
  \<^verbatim>\<open>other.set\<close> and \<^verbatim>\<open>self.set\<close>, which call them. A \<^verbatim>\<open>throw\<close> leaves the function at
  once, so the statements after the call of \<^verbatim>\<open>set\<close> are skipped when it fails.
\<close>

function l1 :: "('a, 'b) relation \<Rightarrow> ('a, 'b) relate_state \<Rightarrow> error + ('a, 'b) relate_state"
  and other_set ::
    "('a, 'b) relation \<Rightarrow> 'b \<Rightarrow> ('a, 'b) relate_state \<Rightarrow> error + ('a, 'b) relate_state"
  and l2 :: "('a, 'b) relation \<Rightarrow> ('a, 'b) relate_state \<Rightarrow> error + ('a, 'b) relate_state"
  and self_set ::
    "('a, 'b) relation \<Rightarrow> 'a \<Rightarrow> ('a, 'b) relate_state \<Rightarrow> error + ('a, 'b) relate_state"
where
  "l1 R st =
     (if feedback st then Inr st
      else if \<not> expectUnstable R \<and> feedbackCounter st > 5 then Inl DivergentRelation
      else
        (case other_set R (map_f R (self_value st))
                (st\<lparr>feedback := expectUnstable R, feedbackCounter := feedbackCounter st + 1\<rparr>) of
           Inl e \<Rightarrow> Inl e
         | Inr st' \<Rightarrow> Inr (st'\<lparr>feedback := False, feedbackCounter := feedbackCounter st' - 1\<rparr>)))"
| "other_set R v st =
     (if adapt_other R (other_value st) v = other_value st then Inr st
      else l2 R (st\<lparr>other_value := adapt_other R (other_value st) v\<rparr>))"
| "l2 R st =
     (if feedback st then Inr st
      else
        (case self_set R (map_fPrime R (other_value st))
                (st\<lparr>feedback := expectUnstable R, feedbackCounter := feedbackCounter st + 1\<rparr>) of
           Inl e \<Rightarrow> Inl e
         | Inr st' \<Rightarrow> Inr (st'\<lparr>feedback := False, feedbackCounter := feedbackCounter st' - 1\<rparr>)))"
| "self_set R v st =
     (if adapt_self R (self_value st) v = self_value st then Inr st
      else l1 R (st\<lparr>self_value := adapt_self R (self_value st) v\<rparr>))"
  by pat_completeness auto

termination l1
proof (relation "measure (\<lambda>x.
    let m = (\<lambda>R st k. (if expectUnstable R then (if feedback st then 0 else 4)
                          else 4 * nat (7 - feedbackCounter st)) + k)
    in case x of
         Inl (Inl (R, st)) \<Rightarrow> m R st (0::nat)
       | Inl (Inr (R, v, st)) \<Rightarrow> m R st 3
       | Inr (Inl (R, st)) \<Rightarrow> m R st 2
       | Inr (Inr (R, v, st)) \<Rightarrow> m R st 1)", goal_cases)
  case 1
  show ?case by simp
next
  case (2 R st)
  then show ?case by (auto simp: Let_def)
next
  case (3 R v st)
  then show ?case by (simp add: Let_def)
next
  case (4 R st)
  then show ?case by (auto simp: Let_def)
next
  case (5 R v st)
  then show ?case by (simp add: Let_def)
qed

text \<open>
  \<^verbatim>\<open>this.relateTo(other, f, fPrime, expectUnstable)\<close> on slots that hold \<open>a\<close> and \<open>b\<close>:
  the closure starts with \<^verbatim>\<open>feedback = false\<close> and \<^verbatim>\<open>feedbackCounter = 0\<close>, the two
  listeners are subscribed, and \<^verbatim>\<open>l1()\<close> is called.
\<close>

definition relateTo :: "('a, 'b) relation \<Rightarrow> 'a \<Rightarrow> 'b \<Rightarrow> error + ('a, 'b) relate_state" where
  "relateTo R a b =
     l1 R \<lparr>self_value = a, other_value = b, feedback = False, feedbackCounter = 0\<rparr>"

text \<open>A later call of \<^verbatim>\<open>set\<close> on one of the two slots, and a sequence of such calls.\<close>

datatype ('a, 'b) slot_set = Set_self 'a | Set_other 'b

fun sets ::
  "('a, 'b) relation \<Rightarrow> ('a, 'b) slot_set list \<Rightarrow> ('a, 'b) relate_state
     \<Rightarrow> error + ('a, 'b) relate_state" where
  "sets R [] st = Inr st"
| "sets R (Set_self v # ops) st =
     (case self_set R v st of Inl e \<Rightarrow> Inl e | Inr st' \<Rightarrow> sets R ops st')"
| "sets R (Set_other v # ops) st =
     (case other_set R v st of Inl e \<Rightarrow> Inl e | Inr st' \<Rightarrow> sets R ops st')"


subsection \<open>Example relations\<close>




definition relate_unstable :: "(int, int) relation" where
  "relate_unstable = \<lparr>map_f = (\<lambda>x. x + 1), map_fPrime = (\<lambda>y. y + 1), expectUnstable = True,
                   adapt_self = accept, adapt_other = accept\<rparr>"

subsection \<open>linkFrom\<close>

text \<open>
  The setters of the two properties behind \<^verbatim>\<open>s1\<close> (\<^verbatim>\<open>this\<close>) and \<^verbatim>\<open>s2\<close> (the argument)
  of \<^verbatim>\<open>s1.linkFrom(s2)\<close>.
\<close>

record 'v link =
  adapt1 :: "'v \<Rightarrow> 'v \<Rightarrow> 'v"
  adapt2 :: "'v \<Rightarrow> 'v \<Rightarrow> 'v"

text \<open>A call of \<^verbatim>\<open>s1.set(v)\<close> or of \<^verbatim>\<open>s2.set(v)\<close>.\<close>

datatype 'v set_call = S1_set 'v | S2_set 'v

text \<open>
  The values of the two slots, the variables \<^verbatim>\<open>feedback1\<close> and \<^verbatim>\<open>feedback2\<close> of the
  closure, and the calls of \<^verbatim>\<open>set\<close> made so far, oldest first. The list of calls is not
  part of the program: it is kept to count them.
\<close>

record 'v link_state =
  s1_value :: 'v
  s2_value :: 'v
  feedback1 :: bool
  feedback2 :: bool
  calls :: "'v set_call list"

text \<open>
  The listeners \<open>l1\<close> (subscribed to \<^verbatim>\<open>s1\<close>) and \<open>l2\<close> (subscribed to \<^verbatim>\<open>s2\<close>) of
  \<^verbatim>\<open>linkFrom\<close>, and \<^verbatim>\<open>s2.set\<close> and \<^verbatim>\<open>s1.set\<close>, which call them. The comparisons are the
  source's \<^verbatim>\<open>!==\<close>.
\<close>

function link_l1 :: "'v link \<Rightarrow> 'v link_state \<Rightarrow> 'v link_state"
  and s2_set :: "'v link \<Rightarrow> 'v \<Rightarrow> 'v link_state \<Rightarrow> 'v link_state"
  and link_l2 :: "'v link \<Rightarrow> 'v link_state \<Rightarrow> 'v link_state"
  and s1_set :: "'v link \<Rightarrow> 'v \<Rightarrow> 'v link_state \<Rightarrow> 'v link_state"
where
  "link_l1 L st =
     (if feedback1 st then st
      else if s1_value st \<noteq> s2_value st then
        (let st1 = s2_set L (s1_value st) (st\<lparr>feedback1 := True\<rparr>);
             st2 = (if s1_value st1 \<noteq> s2_value st1 then s1_set L (s2_value st1) st1 else st1)
         in st2\<lparr>feedback1 := False\<rparr>)
      else st)"
| "s2_set L v st =
     (if adapt2 L (s2_value st) v = s2_value st then st\<lparr>calls := calls st @ [S2_set v]\<rparr>
      else link_l2 L (st\<lparr>s2_value := adapt2 L (s2_value st) v,
                          calls := calls st @ [S2_set v]\<rparr>))"
| "link_l2 L st =
     (if feedback2 st then st
      else if s1_value st \<noteq> s2_value st then
        (let st1 = s1_set L (s2_value st) (st\<lparr>feedback2 := True\<rparr>);
             st2 = (if s1_value st1 \<noteq> s2_value st1 then s2_set L (s1_value st1) st1 else st1)
         in st2\<lparr>feedback2 := False\<rparr>)
      else st)"
| "s1_set L v st =
     (if adapt1 L (s1_value st) v = s1_value st then st\<lparr>calls := calls st @ [S1_set v]\<rparr>
      else link_l1 L (st\<lparr>s1_value := adapt1 L (s1_value st) v,
                          calls := calls st @ [S1_set v]\<rparr>))"
  by pat_completeness auto



subsection \<open>Example links\<close>



definition link_both_coerce :: "int link" where
  "link_both_coerce = \<lparr>adapt1 = (\<lambda>old v. v + 1), adapt2 = (\<lambda>old v. v + 1)\<rparr>"

subsection \<open>Termination of the listeners of linkFrom\<close>

text \<open>
  A listener raises its own flag before it calls \<^verbatim>\<open>set\<close> and lowers it afterwards, and
  returns at once when its flag is up. Every call returns with both flags as it found
  them, so the second \<^verbatim>\<open>set\<close> of a listener runs with the flag still up, and the nesting
  is at most two listeners deep.
\<close>

lemma link_flags:
  "link_l1_s2_set_link_l2_s1_set_dom (Inl (Inl (L, st))) \<Longrightarrow>
     feedback1 (link_l1 L st) = feedback1 st \<and> feedback2 (link_l1 L st) = feedback2 st"
  "link_l1_s2_set_link_l2_s1_set_dom (Inl (Inr (L, v, st))) \<Longrightarrow>
     feedback1 (s2_set L v st) = feedback1 st \<and> feedback2 (s2_set L v st) = feedback2 st"
  "link_l1_s2_set_link_l2_s1_set_dom (Inr (Inl (L, st))) \<Longrightarrow>
     feedback1 (link_l2 L st) = feedback1 st \<and> feedback2 (link_l2 L st) = feedback2 st"
  "link_l1_s2_set_link_l2_s1_set_dom (Inr (Inr (L, v, st))) \<Longrightarrow>
     feedback1 (s1_set L v st) = feedback1 st \<and> feedback2 (s1_set L v st) = feedback2 st"
proof (induct L st and L v st and L st and L v st rule: link_l1_s2_set_link_l2_s1_set.pinduct)
  case (1 L st)
  then show ?case
    by (simp add: link_l1.psimps Let_def)
next
  case (2 L v st)
  then show ?case
    by (simp add: s2_set.psimps)
next
  case (3 L st)
  then show ?case
    by (simp add: link_l2.psimps Let_def)
next
  case (4 L v st)
  then show ?case
    by (simp add: s1_set.psimps)
qed

termination link_l1
proof (relation "measure (\<lambda>x.
    let n = (\<lambda>st. (if feedback1 st then 0 else 2) + (if feedback2 st then 0 else (2::nat)))
    in case x of
         Inl (Inl (L, st)) \<Rightarrow> n st
       | Inl (Inr (L, v, st)) \<Rightarrow> n st + 1
       | Inr (Inl (L, st)) \<Rightarrow> n st
       | Inr (Inr (L, v, st)) \<Rightarrow> n st + 1)", goal_cases)
  case 1
  show ?case by simp
next
  case (2 L st)
  then show ?case by (simp add: Let_def)
next
  case (3 L st x)
  from link_flags(2) [OF 3(5)] 3(3)
  have "feedback1 x" and "feedback2 x = feedback2 st" by simp_all
  with 3(1) show ?case by (simp add: Let_def)
next
  case (4 L v st)
  then show ?case by (simp add: Let_def)
next
  case (5 L st)
  then show ?case by (simp add: Let_def)
next
  case (6 L st x)
  from link_flags(4) [OF 6(5)] 6(3)
  have "feedback2 x" and "feedback1 x = feedback1 st" by simp_all
  with 6(1) show ?case by (simp add: Let_def)
next
  case (7 L v st)
  then show ?case by (simp add: Let_def)
qed

section \<open>Classes and axioms (AbstractClass.js, Boot.js)\<close>

text \<open>
  An axiom object: its \<^verbatim>\<open>name\<close>, its \<^verbatim>\<open>cls_\<close> (the class it is an instance of; a plain
  object literal has none) and its two optional installers. \<^verbatim>\<open>installInClass(cls)\<close> adds
  members to the class object and \<^verbatim>\<open>installInProto(proto)\<close> to the prototype; an
  installer is the change it makes to these members.
\<close>

type_synonym members = "string \<rightharpoonup> string"

record axiom =
  ax_name :: string
  ax_cls :: "addr option"
  installInClass :: "(members \<Rightarrow> members) option"
  installInProto :: "(members \<Rightarrow> members) option"

text \<open>
  A class object: \<^verbatim>\<open>id\<close> (\<^verbatim>\<open>AbstractClass\<close> has none), the own properties of \<^verbatim>\<open>axiomMap_\<close>
  in insertion order (the inherited ones are found through the address, as
  \<^verbatim>\<open>axiomMap_\<close> is \<^verbatim>\<open>Object.create(parent.axiomMap_)\<close>), the two caches in \<^verbatim>\<open>private_\<close>,
  the members that installers put on the class object, and the members of
  \<^verbatim>\<open>prototype\<close>. \<^verbatim>\<open>axiomCache\<close> maps the id of a class to a reference to an array;
  \<^verbatim>\<open>isSubClassCache\<close> is created on first use, which is an empty map here.
\<close>

record class_obj =
  cid :: "string option"
  axiomMap :: "(string \<times> axiom) list"
  axiomCache :: "string \<rightharpoonup> nat"
  isSubClassCache :: "string \<rightharpoonup> bool"
  class_members :: members
  prototype :: members

text \<open>
  The class objects by address, the arrays by reference, and the next free reference.
  Address \<open>[]\<close> is \<^verbatim>\<open>foam.AbstractClass\<close>.
\<close>

record classes =
  objs :: "addr \<Rightarrow> class_obj"
  arrays :: "nat \<Rightarrow> axiom list"
  next_ref :: nat


text \<open>
  The allocation in \<^verbatim>\<open>buildClass\<close> (Boot.js), before \<^verbatim>\<open>installModel\<close> runs: a class
  object whose prototype is the parent, with an empty own \<^verbatim>\<open>axiomMap_\<close> and
  \<^verbatim>\<open>private_ = { axiomCache: {} }\<close>. \<open>u\<close> is the unique id of the new object.
\<close>

definition new_class :: "classes \<Rightarrow> addr \<Rightarrow> nat \<Rightarrow> string \<Rightarrow> addr \<times> classes" where
  "new_class s parent u i =
     (u # parent,
      s\<lparr>objs := (objs s)(u # parent :=
           \<lparr>cid = Some i, axiomMap = [], axiomCache = Map.empty, isSubClassCache = Map.empty,
            class_members = Map.empty, prototype = Map.empty\<rparr>)\<rparr>)"

text \<open>
  The enumeration \<^verbatim>\<open>for ( var key in this.axiomMap_ )\<close> with the values
  \<^verbatim>\<open>this.axiomMap_[key]\<close>: the own entries, then the entries of the ancestors that are
  not shadowed. Axiom names that are array indices, which JavaScript enumerates first,
  are outside this model.
\<close>

fun all_axioms :: "classes \<Rightarrow> addr \<Rightarrow> (string \<times> axiom) list" where
  "all_axioms s [] = axiomMap (objs s [])"
| "all_axioms s (u # p) =
     axiomMap (objs s (u # p))
     @ filter (\<lambda>ka. map_of (axiomMap (objs s (u # p))) (fst ka) = None) (all_axioms s p)"

definition getAxiomByName :: "classes \<Rightarrow> addr \<Rightarrow> string \<Rightarrow> axiom option" where
  "getAxiomByName s this nm = map_of (all_axioms s this) nm"

definition hasOwnAxiom :: "classes \<Rightarrow> addr \<Rightarrow> string \<Rightarrow> bool" where
  "hasOwnAxiom s this nm = (map_of (axiomMap (objs s this)) nm \<noteq> None)"





definition cache_put :: "classes \<Rightarrow> addr \<Rightarrow> string \<Rightarrow> nat \<Rightarrow> classes" where
  "cache_put s this k r =
     s\<lparr>objs := (objs s)(this :=
          (objs s this)\<lparr>axiomCache := (axiomCache (objs s this))(k \<mapsto> r)\<rparr>)\<rparr>"

text \<open>\<^verbatim>\<open>as = []\<close> and the later stores into it: a new array with the given content.\<close>

definition new_array :: "classes \<Rightarrow> axiom list \<Rightarrow> nat \<times> classes" where
  "new_array s as = (next_ref s, s\<lparr>arrays := (arrays s)(next_ref s := as), next_ref := next_ref s + 1\<rparr>)"


text \<open>\<^verbatim>\<open>this.getAxioms()\<close>: the full list, cached under the key \<^verbatim>\<open>''\<close>.\<close>

definition getAxioms :: "classes \<Rightarrow> addr \<Rightarrow> nat \<times> classes" where
  "getAxioms s this =
     (case axiomCache (objs s this) [] of
        Some r \<Rightarrow> (r, s)
      | None \<Rightarrow>
          (let (r, s1) = new_array s (map snd (all_axioms s this))
           in (r, cache_put s1 this [] r)))"


subsection \<open>Example classes\<close>




text \<open>
  Two states that differ at most in the \<^verbatim>\<open>isSubClassCache\<close> of their classes: what a
  call of \<^verbatim>\<open>isSubClass\<close> or \<^verbatim>\<open>isInstance\<close> leaves of a state.
\<close>

definition memo_only :: "classes \<Rightarrow> classes \<Rightarrow> bool" where
  "memo_only s s' \<longleftrightarrow>
     arrays s' = arrays s \<and> next_ref s' = next_ref s
     \<and> (\<forall>d. cid (objs s' d) = cid (objs s d)
            \<and> axiomMap (objs s' d) = axiomMap (objs s d)
            \<and> axiomCache (objs s' d) = axiomCache (objs s d)
            \<and> class_members (objs s' d) = class_members (objs s d)
            \<and> prototype (objs s' d) = prototype (objs s d))"




section \<open>Publish and subscribe: the subscriber list of one topic\<close>

text \<open>
  Modelled from the spec: the subscriber list and its delivery loop (FObject.js, which
  holds \<^verbatim>\<open>sub\<close>, \<^verbatim>\<open>pub\<close> and the destroy function of a subscription, is not among the
  sources; only its tests are). The spec gives a subscription as a node
  \<^verbatim>\<open>{callback, prev, next, destroyed}\<close> of an intrusive doubly-linked list, newest first,
  one list for each node of the topic tree; the definitions below are the list of one
  topic path. A destroyed node is unlinked from its neighbours, is marked, and keeps its
  own \<^verbatim>\<open>next\<close> pointer, so that a delivery loop that holds a pointer to it can go on.
\<close>

record sub_node =
  callback :: nat
  prev_node :: "nat option"
  next_node :: "nat option"
  destroyed :: bool

text \<open>The nodes by address, the head of the list, and the next free address.\<close>

record listeners =
  nodes :: "nat \<rightharpoonup> sub_node"
  head :: "nat option"
  fresh :: nat

definition no_listeners :: listeners where
  "no_listeners = \<lparr>nodes = Map.empty, head = None, fresh = 0\<rparr>"

definition set_prev :: "nat option \<Rightarrow> nat option \<Rightarrow> listeners \<Rightarrow> listeners" where
  "set_prev target p st =
     (case target of
        None \<Rightarrow> st
      | Some m \<Rightarrow>
          (case nodes st m of
             None \<Rightarrow> st
           | Some y \<Rightarrow> st\<lparr>nodes := (nodes st)(m \<mapsto> y\<lparr>prev_node := p\<rparr>)\<rparr>))"

text \<open>The \<^verbatim>\<open>next\<close> pointer of a node, or the head of the list when there is no node before.\<close>

definition set_next :: "nat option \<Rightarrow> nat option \<Rightarrow> listeners \<Rightarrow> listeners" where
  "set_next target q st =
     (case target of
        None \<Rightarrow> st\<lparr>head := q\<rparr>
      | Some m \<Rightarrow>
          (case nodes st m of
             None \<Rightarrow> st
           | Some y \<Rightarrow> st\<lparr>nodes := (nodes st)(m \<mapsto> y\<lparr>next_node := q\<rparr>)\<rparr>))"

text \<open>
  Modelled from the spec: \<^verbatim>\<open>subscribe\<close> inserts a new node at the head of the list and
  returns a handle to it; the handle is the address of the node.
\<close>

definition sub :: "nat \<Rightarrow> listeners \<Rightarrow> nat \<times> listeners" where
  "sub cb st =
     (let n = fresh st;
          st1 = st\<lparr>nodes := (nodes st)(n \<mapsto>
                    \<lparr>callback = cb, prev_node = None, next_node = head st, destroyed = False\<rparr>),
                   fresh := n + 1\<rparr>;
          st2 = set_prev (head st) (Some n) st1
      in (n, st2\<lparr>head := Some n\<rparr>))"

text \<open>
  Modelled from the spec: destroying a subscription. Destroying a destroyed node is a
  no-op; otherwise the neighbours are linked to each other and the node is marked.
\<close>

definition destroy :: "nat \<Rightarrow> listeners \<Rightarrow> listeners" where
  "destroy n st =
     (case nodes st n of
        None \<Rightarrow> st
      | Some x \<Rightarrow>
          if destroyed x then st
          else
            (let st1 = set_prev (next_node x) (prev_node x) st;
                 st2 = set_next (prev_node x) (next_node x) st1
             in st2\<lparr>nodes := (nodes st2)(n \<mapsto> x\<lparr>destroyed := True\<rparr>)\<rparr>))"

text \<open>
  What a callback does to the list when it is invoked: it destroys subscriptions. A
  behaviour gives, for a callback and the handle of the subscription it is invoked
  for (the first argument of a listener), the handles it destroys, in order; its own
  handle may be among them, and so may handles that are destroyed already.
\<close>

type_synonym behaviour = "nat \<Rightarrow> nat \<Rightarrow> nat list"

definition invoke :: "behaviour \<Rightarrow> nat \<Rightarrow> nat \<Rightarrow> listeners \<Rightarrow> listeners" where
  "invoke B cb n st = fold destroy (B cb n) st"

text \<open>
  Modelled from the spec: the delivery loop. The \<^verbatim>\<open>next\<close> pointer is read before the
  callback is invoked, and a node that is marked destroyed is passed over. The list of
  the nodes invoked so far is kept to state the properties; the count that \<^verbatim>\<open>publish\<close>
  returns is its length. A pointer to no node gives no result.
\<close>

partial_function (option) notify ::
  "behaviour \<Rightarrow> nat option \<Rightarrow> listeners \<Rightarrow> nat list \<Rightarrow> (nat list \<times> listeners) option" where
  "notify B cur st tr =
     (case cur of
        None \<Rightarrow> Some (tr, st)
      | Some n \<Rightarrow>
          (case nodes st n of
             None \<Rightarrow> None
           | Some x \<Rightarrow>
               if destroyed x then notify B (next_node x) st tr
               else notify B (next_node x) (invoke B (callback x) n st) (tr @ [n])))"

declare notify.simps [code]

definition pub :: "behaviour \<Rightarrow> listeners \<Rightarrow> (nat \<times> nat list \<times> listeners) option" where
  "pub B st =
     (case notify B (head st) st [] of
        None \<Rightarrow> None
      | Some (tr, st') \<Rightarrow> Some (length tr, tr, st'))"

subsection \<open>The list that a state holds\<close>

definition first :: "'a list \<Rightarrow> 'a option" where
  "first ys = (case ys of [] \<Rightarrow> None | y # _ \<Rightarrow> Some y)"

text \<open>
  \<open>holds st xs\<close>: the live subscriptions of \<open>st\<close> are the nodes \<open>xs\<close>, from the head on,
  linked in both directions; every other node is destroyed, and no node lies at or
  beyond the next free address.
\<close>

definition holds :: "listeners \<Rightarrow> nat list \<Rightarrow> bool" where
  "holds st xs \<longleftrightarrow>
     distinct xs \<and> head st = first xs
     \<and> (\<forall>pre n post. xs = pre @ n # post \<longrightarrow>
           (\<exists>x. nodes st n = Some x \<and> \<not> destroyed x
                \<and> next_node x = first post \<and> prev_node x = first (rev pre)))
     \<and> (\<forall>n x. n \<notin> set xs \<longrightarrow> nodes st n = Some x \<longrightarrow> destroyed x)
     \<and> (\<forall>n. fresh st \<le> n \<longrightarrow> nodes st n = None)"

text \<open>The callback of the node at an address.\<close>

definition callback_of :: "listeners \<Rightarrow> nat \<Rightarrow> nat" where
  "callback_of st n = (case nodes st n of None \<Rightarrow> 0 | Some x \<Rightarrow> callback x)"

text \<open>\<open>m\<close> comes before \<open>n\<close> in the list.\<close>

definition before :: "'a \<Rightarrow> 'a \<Rightarrow> 'a list \<Rightarrow> bool" where
  "before m n xs \<longleftrightarrow> (\<exists>a b c. xs = a @ m # b @ n # c)"

text \<open>
  The delivery as the spec describes it, on the list itself: the subscribers are taken in
  order; one that was destroyed before its turn is passed over, any other is invoked, and
  what its callback destroys is destroyed for the rest of the delivery.
\<close>

fun deliver :: "behaviour \<Rightarrow> (nat \<Rightarrow> nat) \<Rightarrow> nat list \<Rightarrow> nat set \<Rightarrow> nat list" where
  "deliver B cb [] D = []"
| "deliver B cb (n # ns) D =
     (if n \<in> D then deliver B cb ns D
      else n # deliver B cb ns (D \<union> set (B (cb n) n)))"

subsection \<open>A list during a delivery\<close>

text \<open>
  While callbacks destroy subscriptions, \<open>xs\<close> stays the list that the delivery started
  with and \<open>D\<close> collects what was destroyed. \<open>live_first D ys\<close> is the first node of \<open>ys\<close>
  that is not destroyed, and \<open>skips D ys p\<close> says that the pointer \<open>p\<close> leads into \<open>ys\<close>
  past destroyed nodes only, or is null with all of \<open>ys\<close> destroyed.
\<close>

definition live_first :: "nat set \<Rightarrow> nat list \<Rightarrow> nat option" where
  "live_first D ys = first (filter (\<lambda>m. m \<notin> D) ys)"

definition skips :: "nat set \<Rightarrow> nat list \<Rightarrow> nat option \<Rightarrow> bool" where
  "skips D ys p =
     (case p of None \<Rightarrow> set ys \<subseteq> D | Some m \<Rightarrow> (\<exists>a b. ys = a @ m # b \<and> set a \<subseteq> D))"

text \<open>
  \<open>delivering cb st xs D\<close>: every node of \<open>xs\<close> is in \<open>st\<close> with its callback, marked
  destroyed exactly when it is in \<open>D\<close>; a live node is linked to the nearest live nodes
  on both sides, and the \<^verbatim>\<open>next\<close> pointer that a destroyed node has kept skips destroyed
  nodes only; the head is the first live node; every node outside \<open>xs\<close> is destroyed.
\<close>

definition delivering :: "(nat \<Rightarrow> nat) \<Rightarrow> listeners \<Rightarrow> nat list \<Rightarrow> nat set \<Rightarrow> bool" where
  "delivering cb st xs D \<longleftrightarrow>
     distinct xs \<and> head st = live_first D xs
     \<and> (\<forall>pre n post. xs = pre @ n # post \<longrightarrow>
           (\<exists>x. nodes st n = Some x \<and> callback x = cb n \<and> (destroyed x \<longleftrightarrow> n \<in> D)
                \<and> (n \<notin> D \<longrightarrow> next_node x = live_first D post
                              \<and> prev_node x = live_first D (rev pre))
                \<and> (n \<in> D \<longrightarrow> skips D post (next_node x))))
     \<and> (\<forall>n x. n \<notin> set xs \<longrightarrow> nodes st n = Some x \<longrightarrow> destroyed x)"

subsection \<open>Example: two listeners that destroy themselves\<close>

text \<open>
  The test \<^verbatim>\<open>pub/sub unsub during pub does not lose events\<close>: two subscriptions whose
  listeners call \<^verbatim>\<open>s.destroy()\<close>, twice for good measure.
\<close>

definition destroys_itself :: behaviour where
  "destroys_itself cb n = [n, n]"

definition two_listeners :: listeners where
  "two_listeners = snd (sub 8 (snd (sub 7 no_listeners)))"

section \<open>Properties of the context registry\<close>







subsection \<open>Claim C6: register\<close>




subsection \<open>Claim C7: lookup\<close>



subsection \<open>Claim C9: the short-cut foam.lookup\<close>



subsection \<open>Claim C10: frozen contexts and registration\<close>



section \<open>Properties of relateTo\<close>

declare l1.simps [simp del] other_set.simps [simp del] l2.simps [simp del] self_set.simps [simp del]


lemma l1_feedback: "feedback st \<Longrightarrow> l1 R st = Inr st"
  by (simp add: l1.simps)

lemma l2_feedback: "feedback st \<Longrightarrow> l2 R st = Inr st"
  by (simp add: l2.simps)

lemma other_set_feedback:
  "feedback st \<Longrightarrow>
   other_set R v st = Inr (st\<lparr>other_value := adapt_other R (other_value st) v\<rparr>)"
  by (simp add: other_set.simps l2_feedback)

lemma self_set_feedback:
  "feedback st \<Longrightarrow>
   self_set R v st = Inr (st\<lparr>self_value := adapt_self R (self_value st) v\<rparr>)"
  by (simp add: self_set.simps l1_feedback)

lemma l1_unstable:
  "expectUnstable R \<Longrightarrow> \<not> feedback st \<Longrightarrow>
   l1 R st = Inr (st\<lparr>other_value := adapt_other R (other_value st) (map_f R (self_value st))\<rparr>)"
  by (simp add: l1.simps other_set_feedback)

lemma l2_unstable:
  "expectUnstable R \<Longrightarrow> \<not> feedback st \<Longrightarrow>
   l2 R st = Inr (st\<lparr>self_value := adapt_self R (self_value st) (map_fPrime R (other_value st))\<rparr>)"
  by (simp add: l2.simps self_set_feedback)

lemma self_set_unstable:
  "expectUnstable R \<Longrightarrow> \<not> feedback st \<Longrightarrow>
   self_set R v st =
     Inr (if adapt_self R (self_value st) v = self_value st then st
          else st\<lparr>self_value := adapt_self R (self_value st) v,
                  other_value := adapt_other R (other_value st)
                                   (map_f R (adapt_self R (self_value st) v))\<rparr>)"
  by (simp add: self_set.simps l1_unstable)

lemma other_set_unstable:
  "expectUnstable R \<Longrightarrow> \<not> feedback st \<Longrightarrow>
   other_set R v st =
     Inr (if adapt_other R (other_value st) v = other_value st then st
          else st\<lparr>other_value := adapt_other R (other_value st) v,
                  self_value := adapt_self R (self_value st)
                                  (map_fPrime R (adapt_other R (other_value st) v))\<rparr>)"
  by (simp add: other_set.simps l2_unstable)

lemma sets_unstable: "expectUnstable R \<Longrightarrow> \<exists>st'. sets R ops st = Inr st'"
proof (induction ops arbitrary: st)
  case Nil
  then show ?case by simp
next
  case (Cons x ops)
  show ?case
  proof (cases x)
    case (Set_self v)
    have "\<exists>st1. self_set R v st = Inr st1"
      by (cases "feedback st") (simp_all add: self_set_feedback self_set_unstable Cons.prems)
    then show ?thesis using Cons.IH [OF Cons.prems] Set_self by auto
  next
    case (Set_other v)
    have "\<exists>st1. other_set R v st = Inr st1"
      by (cases "feedback st") (simp_all add: other_set_feedback other_set_unstable Cons.prems)
    then show ?thesis using Cons.IH [OF Cons.prems] Set_other by auto
  qed
qed





subsection \<open>Claim C3: relateTo without expectUnstable\<close>




subsection \<open>Claim C4: relateTo with expectUnstable\<close>

text \<open>
  Claim C4: with \<^verbatim>\<open>expectUnstable\<close> set, no divergence check is made and the feedback flag
  is raised for the whole of each propagation: \<^verbatim>\<open>relateTo\<close> itself and every later
  sequence of \<^verbatim>\<open>set\<close> calls on the two slots, from any state of the closure, return
  without \<open>DivergentRelation\<close> (or any other failure), whatever the maps and the setters
  are. A \<^verbatim>\<open>set\<close> outside a propagation makes exactly one propagation step: the other
  slot is set through the map, and the listener that would propagate back is suppressed.
\<close>

theorem relateTo_unstable_never_diverges:
  assumes "expectUnstable R"
  shows "(\<exists>st. relateTo R a b = Inr st \<and> (\<exists>st'. sets R ops st = Inr st'))
       \<and> (\<forall>st. \<exists>st'. sets R ops st = Inr st')
       \<and> (\<forall>st v. \<not> feedback st \<longrightarrow>
             self_set R v st =
               Inr (if adapt_self R (self_value st) v = self_value st then st
                    else st\<lparr>self_value := adapt_self R (self_value st) v,
                            other_value := adapt_other R (other_value st)
                                             (map_f R (adapt_self R (self_value st) v))\<rparr>))
       \<and> (\<forall>st v. \<not> feedback st \<longrightarrow>
             other_set R v st =
               Inr (if adapt_other R (other_value st) v = other_value st then st
                    else st\<lparr>other_value := adapt_other R (other_value st) v,
                            self_value := adapt_self R (self_value st)
                                            (map_fPrime R (adapt_other R (other_value st) v))\<rparr>))"
proof -
  have "\<exists>st. relateTo R a b = Inr st"
    by (simp add: relateTo_def l1_unstable assms)
  then show ?thesis
    using sets_unstable [OF assms] self_set_unstable [OF assms] other_set_unstable [OF assms]
    by blast
qed

theorem relateTo_unstable_never_diverges_witness:
  "relateTo relate_unstable 0 0 \<noteq> Inl DivergentRelation
   \<and> sets relate_unstable [Set_self 3, Set_other 10]
        \<lparr>self_value = 0, other_value = 1, feedback = False, feedbackCounter = 0\<rparr>
       \<noteq> Inl DivergentRelation
   \<and> self_set relate_unstable 3
        \<lparr>self_value = 0, other_value = 1, feedback = False, feedbackCounter = 0\<rparr>
      = Inr \<lparr>self_value = 3, other_value = 4, feedback = False, feedbackCounter = 0\<rparr>"
proof -
  have u: "expectUnstable relate_unstable" by (simp add: relate_unstable_def)
  from relateTo_unstable_never_diverges [OF u, of 0 0 "[Set_self 3, Set_other 10]"]
  show ?thesis
    by (auto simp: relate_unstable_def accept_def)
qed

section \<open>Properties of linkFrom\<close>

declare link_l1.simps [simp del] s2_set.simps [simp del] link_l2.simps [simp del]
  s1_set.simps [simp del]



















subsection \<open>Claim C5: linkFrom\<close>



section \<open>Properties of classes and axioms\<close>









lemma all_axioms_memo_only: "memo_only s s' \<Longrightarrow> all_axioms s' c = all_axioms s c"
  by (induction c) (simp_all add: memo_only_def)


subsection \<open>Claim C1: installAxiom and the caches\<close>




subsection \<open>Claim C8: getAxiomsByClass\<close>









end
